theory Spec2Isabelle
  imports Main "HOL-Library.AList" "HOL-Library.Sublist"
begin

section \<open>Python strings\<close>

text \<open>
  Text is modelled as ASCII: a \<^typ>\<open>string\<close> is the list of its characters. The three
  string operations the transcriber uses are \<open>str.lower\<close>, \<open>str.strip\<close> (no argument)
  and the substring test \<open>p in t\<close>.
\<close>

definition isspace :: "char \<Rightarrow> bool" where
  \<comment> \<open>The ASCII characters Python's \<open>str.isspace\<close> accepts: TAB, LF, VT, FF, CR,
      FS, GS, RS, US and the space.\<close>
  "isspace c = (let n = (of_char c :: nat) in (9 \<le> n \<and> n \<le> 13) \<or> (28 \<le> n \<and> n \<le> 32))"

definition lower_char :: "char \<Rightarrow> char" where
  "lower_char c =
     (case map_of (zip ''ABCDEFGHIJKLMNOPQRSTUVWXYZ'' ''abcdefghijklmnopqrstuvwxyz'') c of
        Some l \<Rightarrow> l
      | None \<Rightarrow> c)"

definition lower :: "string \<Rightarrow> string" where
  "lower t = map lower_char t"

definition strip :: "string \<Rightarrow> string" where
  "strip t = rev (dropWhile isspace (rev (dropWhile isspace t)))"

fun py_in :: "string \<Rightarrow> string \<Rightarrow> bool" where
  \<comment> \<open>\<open>py_in p t\<close> is Python's \<open>p in t\<close> on strings.\<close>
  "py_in p [] = (p = [])"
| "py_in p (c # cs) = (prefix p (c # cs) \<or> py_in p cs)"

section \<open>The data model\<close>

text \<open>
  The values \<open>json.load\<close> returns. An object keeps its keys in insertion order, as a
  Python \<open>dict\<close> does; item assignment is \<^const>\<open>AList.update\<close> (in place for a key that
  is present, at the end for a new one).
\<close>

datatype json =
    JNull
  | JBool bool
  | JNum int
  | JStr string
  | JArr "json list"
  | JObj "(string \<times> json) list"

text \<open>
  What \<open>metadata.json\<close> holds: text that \<open>json.load\<close> rejects, or the value it parses to
  (which is also what \<open>json.dump\<close> of that value leaves in the file).
\<close>

datatype metadata_content = NotJson | Json json

text \<open>The directory entry \<open>MEETINGS_DIR/current\<close>, when there is one.\<close>

datatype dirent = Symlink string | NotSymlink

text \<open>
  The meeting directory. A text file written in append mode is the list of the strings
  written to it, in order (its text is their concatenation); \<open>write_text("")\<close> leaves
  the empty list; \<open>None\<close> is a path that does not exist.
\<close>

record workspace =
  transcript_file :: "string list option"
  mentions_file :: "string list option"
  metadata_file :: "metadata_content option"
  current_link :: "dirent option"

type_synonym bytes = "char list"

datatype websocket = WebSocket nat

text \<open>
  The messages the client puts on the wire: the \<open>session.update\<close> handshake and
  \<open>input_audio_buffer.append\<close> with the chunk (base64 in JSON, an injective encoding,
  so the frame is identified with the chunk it carries).
\<close>

datatype frame = SessionUpdate | AudioAppend bytes

datatype error = ConnectError | ConnectionClosed | OSError | FileExistsError

text \<open>
  \<open>MeetingTranscriber\<close>: the fields of the object, the module's global
  \<open>MENTION_KEYWORDS\<close>, the files it owns, and two logs of its effects on the outside:
  the frames sent (\<open>wire\<close>) and the delays \<open>_reconnect\<close> has slept (\<open>slept\<close>).
\<close>

record transcriber =
  meeting_id :: string
  meeting_url :: string
  ws :: "websocket option"
  running :: bool
  reconnect_delay :: int
  max_reconnect_delay :: int
  mention_keywords :: "string list"
  fs :: workspace
  wire :: "frame list"
  slept :: "int list"

text \<open>The built-in value of \<open>MENTION_KEYWORDS\<close>.\<close>

definition MENTION_KEYWORDS :: "string list" where
  "MENTION_KEYWORDS = [''claude'', ''assistant'', ''ai'']"

text \<open>
  \<open>__init__\<close>: \<open>keywords\<close> is what \<open>_load_config\<close> leaves in \<open>MENTION_KEYWORDS\<close>, \<open>disk\<close>
  the meeting directory as it is found.
\<close>

definition init :: "string \<Rightarrow> string \<Rightarrow> string list \<Rightarrow> workspace \<Rightarrow> transcriber" where
  "init mid url keywords disk =
     \<lparr> meeting_id = mid, meeting_url = url, ws = None, running = True,
       reconnect_delay = 1, max_reconnect_delay = 30, mention_keywords = keywords,
       fs = disk, wire = [], slept = [] \<rparr>"

section \<open>The connection and its backoff\<close>

text \<open>
  What the network does to one \<open>connect()\<close>: \<open>websockets.connect\<close> raises; or it returns
  a socket and sending the session configuration raises; or both succeed.
\<close>

datatype connect_outcome = ConnectRaises | ConfigureRaises websocket | Established websocket

text \<open>
  \<open>connect\<close> returns the exception raised, if any, and the object as it is left:
  \<open>self.ws\<close> is assigned before the configuration is sent, the delay is reset last.
\<close>

definition connect :: "connect_outcome \<Rightarrow> transcriber \<Rightarrow> error option \<times> transcriber" where
  "connect outcome s =
     (case outcome of
        ConnectRaises \<Rightarrow> (Some ConnectError, s)
      | ConfigureRaises w \<Rightarrow> (Some ConnectionClosed, s\<lparr>ws := Some w\<rparr>)
      | Established w \<Rightarrow>
          (None, s\<lparr>ws := Some w, wire := wire s @ [SessionUpdate], reconnect_delay := 1\<rparr>))"

text \<open>
  \<open>_reconnect\<close>: nothing when shutting down; otherwise sleep the stored delay, double it
  up to the ceiling, and try to connect, swallowing the exception of a failed attempt.
\<close>

definition reconnect :: "connect_outcome \<Rightarrow> transcriber \<Rightarrow> transcriber" where
  "reconnect outcome s =
     (if \<not> running s then s
      else
        let s1 = s\<lparr>slept := slept s @ [reconnect_delay s]\<rparr>;
            s2 = s1\<lparr>reconnect_delay := min (reconnect_delay s1 * 2) (max_reconnect_delay s1)\<rparr>
        in snd (connect outcome s2))"

text \<open>
  A sequence of reconnect attempts, one network outcome for each. An attempt runs to
  its end before the next one starts.
\<close>

fun reconnect_attempts :: "connect_outcome list \<Rightarrow> transcriber \<Rightarrow> transcriber" where
  "reconnect_attempts [] s = s"
| "reconnect_attempts (outcome # rest) s = reconnect_attempts rest (reconnect outcome s)"

fun established :: "connect_outcome \<Rightarrow> bool" where
  "established (Established w) = True"
| "established _ = False"

section \<open>Persisting transcripts and detecting mentions\<close>

text \<open>
  Whether an \<open>open(path, "a")\<close> and the write that follows go through, or raise
  \<open>OSError\<close> with the file left as it was.
\<close>

datatype io = IoOk | IoFails

text \<open>
  What one call of \<open>_write_transcript\<close> reads from the outside: the local clock as
  \<open>%H:%M:%S\<close>, and the fate of the two appends. \<open>network\<close> is the outcome of the
  \<open>connect()\<close> a reconnect in the same loop iteration would make.
\<close>

record world =
  clock :: string
  transcript_io :: io
  mentions_io :: io
  network :: connect_outcome

definition newline :: char where
  "newline = CHR 0x0A"

text \<open>Appending one string to a file in mode \<open>"a"\<close>, which creates a missing file.\<close>

definition append_line :: "string list option \<Rightarrow> string \<Rightarrow> string list option" where
  "append_line file line = Some ((case file of None \<Rightarrow> [] | Some written \<Rightarrow> written) @ [line])"

definition question_phrases :: "string list" where
  "question_phrases =
     [''what do you think'', ''can you'', ''could you'', ''would you'', ''do you know'',
      ''what about'', ''hey claude'', ''hey assistant'']"

text \<open>
  The \<open>for keyword in MENTION_KEYWORDS\<close> loop of \<open>_check_mentions\<close>: the first keyword
  found in the lowered transcript writes one line and breaks.
\<close>

fun check_keywords ::
  "string list \<Rightarrow> world \<Rightarrow> string \<Rightarrow> string \<Rightarrow> transcriber \<Rightarrow> error option \<times> transcriber"
where
  "check_keywords [] e timestamp transcript s = (None, s)"
| "check_keywords (keyword # rest) e timestamp transcript s =
     (let lower_transcript = lower transcript in
      if py_in (lower keyword) lower_transcript then
        (let is_question =
               (py_in ''?'' transcript \<or>
                list_ex (\<lambda>p. py_in p lower_transcript) question_phrases);
             mention_line =
               (if is_question
                then ''['' @ timestamp @ ''] QUESTION: '' @ transcript @ [newline]
                else ''['' @ timestamp @ ''] MENTION: '' @ transcript @ [newline])
         in if mentions_io e = IoFails then (Some OSError, s)
            else (None,
                  s\<lparr>fs := (fs s)\<lparr>mentions_file :=
                         append_line (mentions_file (fs s)) mention_line\<rparr>\<rparr>))
      else check_keywords rest e timestamp transcript s)"

definition check_mentions ::
  "world \<Rightarrow> string \<Rightarrow> string \<Rightarrow> transcriber \<Rightarrow> error option \<times> transcriber"
where
  "check_mentions e timestamp transcript s =
     check_keywords (mention_keywords s) e timestamp transcript s"

text \<open>
  \<open>_write_transcript\<close>: append the line, then check for mentions with the same
  timestamp. An exception of the append leaves before \<open>_check_mentions\<close> is called.
\<close>

definition write_transcript :: "world \<Rightarrow> string \<Rightarrow> transcriber \<Rightarrow> error option \<times> transcriber" where
  "write_transcript e transcript s =
     (let timestamp = clock e;
          line = ''['' @ timestamp @ ''] '' @ transcript @ [newline]
      in if transcript_io e = IoFails then (Some OSError, s)
         else check_mentions e timestamp transcript
                (s\<lparr>fs := (fs s)\<lparr>transcript_file :=
                       append_line (transcript_file (fs s)) line\<rparr>\<rparr>))"

section \<open>The receiving path\<close>

text \<open>
  What \<open>await self.ws.recv()\<close> and the decoding that follows give one loop iteration:
  an event with its \<open>type\<close> and \<open>transcript\<close> (each \<open>""\<close> when the key is missing);
  \<open>ConnectionClosed\<close>; or any other exception raised inside the \<open>try\<close> (undecodable
  JSON, a payload that is not an object, a transcript that is not a string).
\<close>

datatype recv_outcome = Event string string | RecvClosed | RecvRaises

definition COMPLETED :: string where
  "COMPLETED = ''conversation.item.input_audio_transcription.completed''"

text \<open>
  One iteration of the \<open>while self.running\<close> loop of \<open>receive_transcriptions\<close>. Without
  a socket it sleeps and receives nothing. \<open>except Exception\<close> swallows whatever
  \<open>_write_transcript\<close> raises, keeping what was written before the exception.
\<close>

definition receive_step :: "recv_outcome \<Rightarrow> world \<Rightarrow> transcriber \<Rightarrow> transcriber" where
  "receive_step r e s =
     (case ws s of
        None \<Rightarrow> s
      | Some w \<Rightarrow>
          (case r of
             Event event_type text \<Rightarrow>
               (if event_type = COMPLETED then
                  (let transcript = strip text in
                   if transcript \<noteq> [] then snd (write_transcript e transcript s) else s)
                else s)
           | RecvClosed \<Rightarrow> reconnect (network e) s
           | RecvRaises \<Rightarrow> s))"

text \<open>
  The loop, over what the outside gives each iteration. \<open>self.running\<close> is cleared only
  by the signal handler and by \<open>run\<close>, never by the loop itself.
\<close>

fun receive_transcriptions :: "(recv_outcome \<times> world) list \<Rightarrow> transcriber \<Rightarrow> transcriber" where
  "receive_transcriptions [] s = s"
| "receive_transcriptions ((r, e) # rest) s =
     (if running s then receive_transcriptions rest (receive_step r e s) else s)"

section \<open>The forwarding path\<close>

text \<open>
  One read of \<open>sys.stdin.buffer\<close> (a chunk, empty at end of stream, or an exception)
  and the outcome of \<open>self.ws.send\<close>, should the iteration reach it.
\<close>

datatype read_outcome = Read bytes | ReadRaises

datatype send_outcome = Sent | SendClosed | SendRaises

text \<open>
  \<open>send_audio\<close>: the loop ends on an empty read and on any exception but
  \<open>ConnectionClosed\<close>; a chunk read without a socket, or whose send finds the
  connection closed, is not sent and not kept.
\<close>

fun send_audio ::
  "(read_outcome \<times> send_outcome \<times> connect_outcome) list \<Rightarrow> transcriber \<Rightarrow> transcriber"
where
  "send_audio [] s = s"
| "send_audio ((rd, sd, net) # rest) s =
     (if \<not> running s then s
      else
        case rd of
          ReadRaises \<Rightarrow> s
        | Read chunk \<Rightarrow>
            if chunk = [] then s
            else
              (case ws s of
                 None \<Rightarrow> send_audio rest s
               | Some w \<Rightarrow>
                   (case sd of
                      Sent \<Rightarrow> send_audio rest (s\<lparr>wire := wire s @ [AudioAppend chunk]\<rparr>)
                    | SendClosed \<Rightarrow> send_audio rest (reconnect net s)
                    | SendRaises \<Rightarrow> s)))"

section \<open>The workspace: setup and close\<close>

text \<open>
  \<open>update_metadata_ended\<close>: \<open>now\<close> is the UTC clock in ISO format, \<open>write\<close> the fate of
  reopening the file for writing. Every exception inside the \<open>try\<close> is swallowed:
  unreadable JSON, and item assignment on a value that is not an object.
\<close>

definition update_metadata_ended :: "string \<Rightarrow> io \<Rightarrow> transcriber \<Rightarrow> transcriber" where
  "update_metadata_ended now write s =
     (case metadata_file (fs s) of
        None \<Rightarrow> s
      | Some NotJson \<Rightarrow> s
      | Some (Json (JObj metadata)) \<Rightarrow>
          (let metadata1 = AList.update ''ended_at'' (JStr now) metadata;
               metadata2 = AList.update ''status'' (JStr ''ended'') metadata1
           in if write = IoFails then s
              else s\<lparr>fs := (fs s)\<lparr>metadata_file := Some (Json (JObj metadata2))\<rparr>\<rparr>)
      | Some (Json other) \<Rightarrow> s)"

text \<open>
  The metadata both clients write at setup; \<open>participant_name\<close> is what
  \<open>_get_participant_name\<close> reads from the configuration.
\<close>

definition initial_metadata :: "string \<Rightarrow> string \<Rightarrow> string \<Rightarrow> string \<Rightarrow> json" where
  "initial_metadata mid url now participant_name =
     JObj [(''meeting_id'', JStr mid), (''url'', JStr url), (''started_at'', JStr now),
           (''ended_at'', JNull), (''participant_name'', JStr participant_name),
           (''status'', JStr ''active'')]"

text \<open>
  Replacing the \<open>current\<close> link: a symlink is unlinked first; \<open>symlink_to\<close> raises
  \<open>FileExistsError\<close> on any other entry. The link's target is the meeting directory,
  named by the meeting id.
\<close>

definition update_current :: "string \<Rightarrow> workspace \<Rightarrow> error option \<times> workspace" where
  "update_current mid d =
     (case current_link d of
        Some NotSymlink \<Rightarrow> (Some FileExistsError, d)
      | _ \<Rightarrow> (None, d\<lparr>current_link := Some (Symlink mid)\<rparr>))"

text \<open>
  \<open>MeetingTranscriber.setup_meeting_directory\<close> (the streaming client), on a meeting
  directory that can be created and written.
\<close>

definition setup_meeting_directory ::
  "string \<Rightarrow> string \<Rightarrow> transcriber \<Rightarrow> error option \<times> transcriber"
where
  "setup_meeting_directory now participant_name s =
     (let d1 = (fs s)\<lparr>transcript_file := Some []\<rparr>;
          d2 = d1\<lparr>mentions_file := Some []\<rparr>;
          metadata = initial_metadata (meeting_id s) (meeting_url s) now participant_name;
          d3 = d2\<lparr>metadata_file := Some (Json metadata)\<rparr>;
          (raised, d4) = update_current (meeting_id s) d3
      in (raised, s\<lparr>fs := d4\<rparr>))"

text \<open>
  \<open>MeetingTranscriberBatch.setup_meeting_directory\<close> (the batch client), on the same
  directory; \<open>mid\<close> and \<open>url\<close> are its \<open>self.meeting_id\<close> and \<open>self.meeting_url\<close>.
\<close>

definition batch_setup_meeting_directory ::
  "string \<Rightarrow> string \<Rightarrow> string \<Rightarrow> string \<Rightarrow> workspace \<Rightarrow> error option \<times> workspace"
where
  "batch_setup_meeting_directory mid url now participant_name d =
     (let d1 = (if transcript_file d = None then d\<lparr>transcript_file := Some []\<rparr> else d);
          d2 = (if mentions_file d1 = None then d1\<lparr>mentions_file := Some []\<rparr> else d1);
          metadata = initial_metadata mid url now participant_name;
          d3 = d2\<lparr>metadata_file := Some (Json metadata)\<rparr>
      in update_current mid d3)"

section \<open>Predicates used in the proofs\<close>

text \<open>The stored delay is within its bounds and the ceiling is the configured one.\<close>

definition backoff_ok :: "transcriber \<Rightarrow> bool" where
  "backoff_ok s =
     (1 \<le> reconnect_delay s \<and> reconnect_delay s \<le> 30 \<and> max_reconnect_delay s = 30)"

text \<open>A state right after \<open>__init__\<close>, on an empty meeting directory.\<close>

definition fresh :: transcriber where
  "fresh =
     init ''abc-defg-hij'' ''https://meet.google.com/abc-defg-hij'' MENTION_KEYWORDS
       \<lparr> transcript_file = None, mentions_file = None, metadata_file = None,
         current_link = None \<rparr>"

text \<open>The same client after \<open>setup_meeting_directory\<close>, and after its first \<open>connect\<close>.\<close>

definition opened :: transcriber where
  "opened = snd (setup_meeting_directory ''2026-01-01T09:00:00Z'' ''Claude Assistant'' fresh)"

definition streaming :: transcriber where
  "streaming = snd (connect (Established (WebSocket 0)) opened)"

text \<open>An iteration in which the disk and the network work, at ten o'clock.\<close>

definition calm :: world where
  "calm = \<lparr> clock = ''10:00:00'', transcript_io = IoOk, mentions_io = IoOk,
            network = Established (WebSocket 1) \<rparr>"

text \<open>The strings a file holds; none for a missing file.\<close>

definition written :: "string list option \<Rightarrow> string list" where
  "written file = (case file of None \<Rightarrow> [] | Some ls \<Rightarrow> ls)"

text \<open>The two line formats of \<open>_write_transcript\<close> and \<open>_check_mentions\<close>.\<close>

definition transcript_line :: "string \<Rightarrow> string \<Rightarrow> string" where
  "transcript_line timestamp transcript = ''['' @ timestamp @ ''] '' @ transcript @ [newline]"

definition mention_record :: "string \<Rightarrow> string \<Rightarrow> string \<Rightarrow> string" where
  "mention_record timestamp kind transcript =
     ''['' @ timestamp @ ''] '' @ kind @ '': '' @ transcript @ [newline]"

text \<open>
  The transcript line one loop iteration owes: one for a completed event whose stripped
  transcript is not empty and whose append goes through, none otherwise.
\<close>

definition line_of :: "recv_outcome \<times> world \<Rightarrow> string list" where
  "line_of x =
     (case x of
        (Event event_type text, e) \<Rightarrow>
          if event_type = COMPLETED \<and> strip text \<noteq> [] \<and> transcript_io e = IoOk
          then [transcript_line (clock e) (strip text)] else []
      | _ \<Rightarrow> [])"

text \<open>The streaming client configured with the single keyword \<open>claude\<close>.\<close>

definition one_keyword :: transcriber where
  "one_keyword = streaming\<lparr>mention_keywords := [''claude'']\<rparr>"

text \<open>An iteration in which appending to the transcript raises.\<close>

definition disk_full :: world where
  "disk_full = calm\<lparr>transcript_io := IoFails\<rparr>"

text \<open>An iteration in which appending to the mentions file raises.\<close>

definition mentions_full :: world where
  "mentions_full = calm\<lparr>mentions_io := IoFails\<rparr>"

text \<open>The audio chunks among the frames sent, in order.\<close>

definition audio :: "frame list \<Rightarrow> bytes list" where
  "audio frames =
     concat (map (\<lambda>f. case f of AudioAppend chunk \<Rightarrow> [chunk] | SessionUpdate \<Rightarrow> []) frames)"

text \<open>
  Of one iteration of \<open>send_audio\<close>: the chunk it read, the chunk it put on the wire
  (when there is a socket), and whether the loop goes on after it.
\<close>

definition read_chunk :: "read_outcome \<times> send_outcome \<times> connect_outcome \<Rightarrow> bytes list" where
  "read_chunk it = (case it of (Read chunk, sd, net) \<Rightarrow> [chunk] | _ \<Rightarrow> [])"

definition sent_chunk :: "read_outcome \<times> send_outcome \<times> connect_outcome \<Rightarrow> bytes list" where
  "sent_chunk it = (case it of (Read chunk, Sent, net) \<Rightarrow> [chunk] | _ \<Rightarrow> [])"

definition goes_on :: "read_outcome \<times> send_outcome \<times> connect_outcome \<Rightarrow> bool" where
  "goes_on it =
     (case it of
        (Read chunk, sd, net) \<Rightarrow> chunk \<noteq> [] \<and> sd \<noteq> SendRaises
      | _ \<Rightarrow> False)"

section \<open>Reconnect backoff\<close>

lemma reconnect_backoff_ok: "backoff_ok s \<Longrightarrow> backoff_ok (reconnect outcome s)"
  by (cases outcome) (auto simp: backoff_ok_def reconnect_def connect_def Let_def)

lemma reconnect_failed_delay:
  "\<not> established outcome \<Longrightarrow> backoff_ok s \<Longrightarrow>
     reconnect_delay s \<le> reconnect_delay (reconnect outcome s) \<and>
     reconnect_delay (reconnect outcome s) \<le> 2 * reconnect_delay s"
  by (cases outcome) (auto simp: backoff_ok_def reconnect_def connect_def Let_def)

lemma reconnect_slept:
  "slept (reconnect outcome s) = slept s @ (if running s then [reconnect_delay s] else [])"
  by (cases outcome) (auto simp: reconnect_def connect_def Let_def)

lemma reconnect_running [simp]: "running (reconnect outcome s) = running s"
  by (cases outcome) (auto simp: reconnect_def connect_def Let_def)

lemma reconnect_established:
  "running s \<Longrightarrow> established outcome \<Longrightarrow> reconnect_delay (reconnect outcome s) = 1"
  by (cases outcome) (auto simp: reconnect_def connect_def Let_def)

lemma attempts_backoff_ok: "backoff_ok s \<Longrightarrow> backoff_ok (reconnect_attempts outcomes s)"
  by (induction outcomes arbitrary: s) (auto simp: reconnect_backoff_ok)

lemma attempts_running: "running (reconnect_attempts outcomes s) = running s"
  by (induction outcomes arbitrary: s) (auto simp: reconnect_running)

lemma attempts_append:
  "reconnect_attempts (xs @ ys) s = reconnect_attempts ys (reconnect_attempts xs s)"
  by (induction xs arbitrary: s) auto

text \<open>
  The delays slept over a run of attempts are within bounds, and over a run of failed
  attempts they ascend from the delay stored at its start to the one stored at its end.
\<close>

lemma attempts_slept:
  "backoff_ok s \<Longrightarrow>
   \<exists>waited. slept (reconnect_attempts outcomes s) = slept s @ waited \<and>
     (\<forall>d\<in>set waited. 1 \<le> d \<and> d \<le> 30) \<and>
     ((\<forall>outcome\<in>set outcomes. \<not> established outcome) \<longrightarrow>
        sorted (reconnect_delay s # waited @ [reconnect_delay (reconnect_attempts outcomes s)]))"
proof (induction outcomes arbitrary: s)
  case Nil
  then show ?case by simp
next
  case (Cons outcome rest)
  let ?s1 = "reconnect outcome s"
  let ?end = "reconnect_delay (reconnect_attempts (outcome # rest) s)"
  let ?now = "if running s then [reconnect_delay s] else []"
  have ok1: "backoff_ok ?s1"
    using Cons.prems by (rule reconnect_backoff_ok)
  from Cons.IH [OF ok1] obtain waited where
    w: "slept (reconnect_attempts rest ?s1) = slept ?s1 @ waited"
       "\<forall>d\<in>set waited. 1 \<le> d \<and> d \<le> 30"
       "(\<forall>outcome\<in>set rest. \<not> established outcome) \<longrightarrow>
          sorted (reconnect_delay ?s1 # waited @ [reconnect_delay (reconnect_attempts rest ?s1)])"
    by blast
  have "slept (reconnect_attempts (outcome # rest) s) = slept s @ (?now @ waited)"
    using w(1) by (simp add: reconnect_slept)
  moreover have "\<forall>d\<in>set (?now @ waited). 1 \<le> d \<and> d \<le> 30"
    using w(2) Cons.prems by (auto simp: backoff_ok_def)
  moreover have "(\<forall>outcome\<in>set (outcome # rest). \<not> established outcome) \<longrightarrow>
                   sorted (reconnect_delay s # (?now @ waited) @ [?end])"
  proof
    assume "\<forall>outcome\<in>set (outcome # rest). \<not> established outcome"
    then have failed: "\<not> established outcome"
      and rest: "\<forall>outcome\<in>set rest. \<not> established outcome"
      by auto
    from w(3) rest have ascending:
      "sorted (reconnect_delay ?s1 # waited @ [reconnect_delay (reconnect_attempts rest ?s1)])"
      by blast
    have "reconnect_delay s \<le> reconnect_delay ?s1"
      using reconnect_failed_delay [OF failed Cons.prems] by simp
    with ascending show "sorted (reconnect_delay s # (?now @ waited) @ [?end])"
      by (auto simp: sorted_append)
  qed
  ultimately show ?case by blast
qed

section \<open>Closing the workspace\<close>

text \<open>
  Item assignment on a key that is present keeps the key's place, so two assignments
  commute when one of the keys is present.
\<close>

lemma update_swap_present:
  "k \<in> fst ` set al \<Longrightarrow> k \<noteq> k' \<Longrightarrow>
     AList.update k v (AList.update k' v' al) = AList.update k' v' (AList.update k v al)"
  by (induction al) auto

lemma update_present: "k \<in> fst ` set (AList.update k v al)"
  by (induction al) auto

lemma ended_twice:
  "AList.update ''status'' e (AList.update ''ended_at'' t2
     (AList.update ''status'' e (AList.update ''ended_at'' t1 al)))
   = AList.update ''status'' e (AList.update ''ended_at'' t2 al)"
proof -
  have "AList.update ''ended_at'' t2 (AList.update ''status'' e (AList.update ''ended_at'' t1 al))
      = AList.update ''status'' e (AList.update ''ended_at'' t2 (AList.update ''ended_at'' t1 al))"
    by (rule update_swap_present) (simp_all add: update_present)
  then show ?thesis by simp
qed

lemma update_metadata_ended_object:
  "metadata_file (fs s) = Some (Json (JObj metadata)) \<Longrightarrow>
     update_metadata_ended now IoOk s =
       s\<lparr>fs := (fs s)\<lparr>metadata_file := Some (Json (JObj
         (AList.update ''status'' (JStr ''ended'')
           (AList.update ''ended_at'' (JStr now) metadata))))\<rparr>\<rparr>"
  by (simp add: update_metadata_ended_def)

text \<open>
  C2 (as the code has it). On a metadata file that holds a JSON object, with the write
  going through: after \<open>update_metadata_ended\<close> at time \<open>t1\<close> the status is \<open>"ended"\<close>,
  \<open>ended_at\<close> is \<open>t1\<close> (a string, not null) and every other key is as before. A further
  call at time \<open>t2\<close> is not ignored: it leaves what a single call at \<open>t2\<close> would leave,
  so \<open>ended_at\<close> is overwritten with \<open>t2\<close>, and the record is unchanged exactly when the
  two clock readings are equal.
\<close>

theorem close_overwrites:
  assumes "metadata_file (fs s) = Some (Json (JObj metadata))"
  shows "(\<exists>ended. metadata_file (fs (update_metadata_ended t1 IoOk s)) = Some (Json (JObj ended)) \<and>
            map_of ended ''status'' = Some (JStr ''ended'') \<and>
            map_of ended ''ended_at'' = Some (JStr t1) \<and>
            (\<forall>k. k \<noteq> ''status'' \<and> k \<noteq> ''ended_at'' \<longrightarrow> map_of ended k = map_of metadata k)) \<and>
         update_metadata_ended t2 IoOk (update_metadata_ended t1 IoOk s)
           = update_metadata_ended t2 IoOk s \<and>
         (update_metadata_ended t2 IoOk (update_metadata_ended t1 IoOk s)
           = update_metadata_ended t1 IoOk s \<longleftrightarrow> t2 = t1)"
proof -
  let ?m = "\<lambda>t. AList.update ''status'' (JStr ''ended'') (AList.update ''ended_at'' (JStr t) metadata)"
  let ?s = "\<lambda>t. s\<lparr>fs := (fs s)\<lparr>metadata_file := Some (Json (JObj (?m t)))\<rparr>\<rparr>"
  have first: "update_metadata_ended t IoOk s = ?s t" for t
    using assms by (rule update_metadata_ended_object)
  have fields: "map_of (?m t1) ''status'' = Some (JStr ''ended'') \<and>
     map_of (?m t1) ''ended_at'' = Some (JStr t1) \<and>
     (\<forall>k. k \<noteq> ''status'' \<and> k \<noteq> ''ended_at'' \<longrightarrow> map_of (?m t1) k = map_of metadata k)"
    by (simp add: update_conv')
  have "metadata_file (fs (?s t1)) = Some (Json (JObj (?m t1)))"
    by simp
  from update_metadata_ended_object [OF this, of t2]
  have second: "update_metadata_ended t2 IoOk (?s t1) = ?s t2"
    by (simp add: ended_twice)
  have third: "?s t2 = ?s t1 \<longleftrightarrow> t2 = t1"
  proof
    assume "?s t2 = ?s t1"
    then have "metadata_file (fs (?s t2)) = metadata_file (fs (?s t1))"
      by (rule arg_cong)
    then have "?m t2 = ?m t1" by simp
    then have "map_of (?m t2) ''ended_at'' = map_of (?m t1) ''ended_at''"
      by (rule arg_cong)
    then show "t2 = t1" by (simp add: update_conv')
  qed simp
  have "\<exists>ended. metadata_file (fs (?s t1)) = Some (Json (JObj ended)) \<and>
            map_of ended ''status'' = Some (JStr ''ended'') \<and>
            map_of ended ''ended_at'' = Some (JStr t1) \<and>
            (\<forall>k. k \<noteq> ''status'' \<and> k \<noteq> ''ended_at'' \<longrightarrow> map_of ended k = map_of metadata k)"
    using fields by (intro exI [of _ "?m t1"]) simp
  then show ?thesis
    unfolding first second third by simp
qed

theorem close_overwrites_witness:
  "metadata_file (fs opened) = Some (Json (initial_metadata ''abc-defg-hij''
     ''https://meet.google.com/abc-defg-hij'' ''2026-01-01T09:00:00Z'' ''Claude Assistant'')) \<and>
   update_metadata_ended ''2026-01-01T11:00:00Z'' IoOk
     (update_metadata_ended ''2026-01-01T10:00:00Z'' IoOk opened)
     = update_metadata_ended ''2026-01-01T11:00:00Z'' IoOk opened"
  using close_overwrites [of opened _ "''2026-01-01T10:00:00Z''" "''2026-01-01T11:00:00Z''"]
  by (simp add: opened_def fresh_def init_def setup_meeting_directory_def update_current_def
      initial_metadata_def)

text \<open>
  The claim as stated fails: a second call one hour later moves \<open>ended_at\<close> from
  10:00 to 11:00.
\<close>

theorem close_twice_counterexample:
  "metadata_file (fs (update_metadata_ended ''2026-01-01T10:00:00Z'' IoOk opened))
     = Some (Json (JObj [(''meeting_id'', JStr ''abc-defg-hij''),
          (''url'', JStr ''https://meet.google.com/abc-defg-hij''),
          (''started_at'', JStr ''2026-01-01T09:00:00Z''),
          (''ended_at'', JStr ''2026-01-01T10:00:00Z''),
          (''participant_name'', JStr ''Claude Assistant''),
          (''status'', JStr ''ended'')])) \<and>
   metadata_file (fs (update_metadata_ended ''2026-01-01T11:00:00Z'' IoOk
       (update_metadata_ended ''2026-01-01T10:00:00Z'' IoOk opened)))
     = Some (Json (JObj [(''meeting_id'', JStr ''abc-defg-hij''),
          (''url'', JStr ''https://meet.google.com/abc-defg-hij''),
          (''started_at'', JStr ''2026-01-01T09:00:00Z''),
          (''ended_at'', JStr ''2026-01-01T11:00:00Z''),
          (''participant_name'', JStr ''Claude Assistant''),
          (''status'', JStr ''ended'')])) \<and>
   update_metadata_ended ''2026-01-01T11:00:00Z'' IoOk
       (update_metadata_ended ''2026-01-01T10:00:00Z'' IoOk opened)
     \<noteq> update_metadata_ended ''2026-01-01T10:00:00Z'' IoOk opened"
proof -
  let ?once = "update_metadata_ended ''2026-01-01T10:00:00Z'' IoOk opened"
  let ?twice = "update_metadata_ended ''2026-01-01T11:00:00Z'' IoOk ?once"
  have once: "metadata_file (fs ?once)
     = Some (Json (JObj [(''meeting_id'', JStr ''abc-defg-hij''),
          (''url'', JStr ''https://meet.google.com/abc-defg-hij''),
          (''started_at'', JStr ''2026-01-01T09:00:00Z''),
          (''ended_at'', JStr ''2026-01-01T10:00:00Z''),
          (''participant_name'', JStr ''Claude Assistant''),
          (''status'', JStr ''ended'')]))"
    by (simp add: opened_def fresh_def init_def setup_meeting_directory_def update_current_def
      initial_metadata_def update_metadata_ended_def)
  have twice: "metadata_file (fs ?twice)
     = Some (Json (JObj [(''meeting_id'', JStr ''abc-defg-hij''),
          (''url'', JStr ''https://meet.google.com/abc-defg-hij''),
          (''started_at'', JStr ''2026-01-01T09:00:00Z''),
          (''ended_at'', JStr ''2026-01-01T11:00:00Z''),
          (''participant_name'', JStr ''Claude Assistant''),
          (''status'', JStr ''ended'')]))"
    by (simp add: opened_def fresh_def init_def setup_meeting_directory_def update_current_def
      initial_metadata_def update_metadata_ended_def)
  have "metadata_file (fs ?twice) \<noteq> metadata_file (fs ?once)"
    unfolding once twice by simp
  then have "?twice \<noteq> ?once" by auto
  with once twice show ?thesis by blast
qed

text \<open>
  C10. When the metadata file does not exist, \<open>update_metadata_ended\<close> returns the
  client as it was, whatever the clock and the disk: no exception, no file created,
  nothing modified.
\<close>

theorem close_noop_without_file:
  "metadata_file (fs s) = None \<Longrightarrow> update_metadata_ended now write s = s"
  by (simp add: update_metadata_ended_def)

theorem close_noop_witness:
  "metadata_file (fs fresh) = None \<and> update_metadata_ended ''2026-01-01T10:00:00Z'' IoOk fresh = fresh"
  using close_noop_without_file [of fresh "''2026-01-01T10:00:00Z''" IoOk]
  by (simp add: fresh_def init_def)

section \<open>Setting up the workspace\<close>

text \<open>
  C8. After the streaming client's \<open>setup_meeting_directory\<close> the transcript and the
  mentions file are empty, whatever they held and whether or not replacing the
  \<open>current\<close> link then raises. After the batch client's, each file holds what it held
  before, and is empty only if it did not exist.
\<close>

theorem setup_truncates_or_preserves:
  "transcript_file (fs (snd (setup_meeting_directory now name s))) = Some [] \<and>
   mentions_file (fs (snd (setup_meeting_directory now name s))) = Some [] \<and>
   transcript_file (snd (batch_setup_meeting_directory mid url now name d))
     = (case transcript_file d of None \<Rightarrow> Some [] | Some kept \<Rightarrow> Some kept) \<and>
   mentions_file (snd (batch_setup_meeting_directory mid url now name d))
     = (case mentions_file d of None \<Rightarrow> Some [] | Some kept \<Rightarrow> Some kept)"
  by (auto simp: setup_meeting_directory_def batch_setup_meeting_directory_def update_current_def Let_def
      split: option.splits dirent.splits prod.splits)

theorem setup_truncates_or_preserves_witness:
  "transcript_file (fs (snd (setup_meeting_directory ''2026-01-01T09:00:00Z'' ''Claude Assistant''
      (fresh\<lparr>fs := (fs fresh)\<lparr>transcript_file := Some [''[08:59:00] hello'' @ [newline]]\<rparr>\<rparr>))))
     = Some [] \<and>
   transcript_file (snd (batch_setup_meeting_directory ''abc-defg-hij'' ''u''
      ''2026-01-01T09:00:00Z'' ''Claude Assistant''
      ((fs fresh)\<lparr>transcript_file := Some [''[08:59:00] hello'' @ [newline]]\<rparr>)))
     = Some [''[08:59:00] hello'' @ [newline]] \<and>
   mentions_file (snd (batch_setup_meeting_directory ''abc-defg-hij'' ''u''
      ''2026-01-01T09:00:00Z'' ''Claude Assistant''
      ((fs fresh)\<lparr>transcript_file := Some [''[08:59:00] hello'' @ [newline]]\<rparr>)))
     = Some []"
  using setup_truncates_or_preserves [of "''2026-01-01T09:00:00Z''" "''Claude Assistant''"
      "fresh\<lparr>fs := (fs fresh)\<lparr>transcript_file := Some [''[08:59:00] hello'' @ [newline]]\<rparr>\<rparr>"
      "''abc-defg-hij''" "''u''"
      "(fs fresh)\<lparr>transcript_file := Some [''[08:59:00] hello'' @ [newline]]\<rparr>"]
  by (simp add: fresh_def init_def)

section \<open>The receiving path, step by step\<close>

text \<open>\<^const>\<open>py_in\<close> is the substring relation.\<close>

lemma py_in_sublist: "py_in p t \<longleftrightarrow> sublist p t"
  by (induction t) (auto simp: sublist_Cons_right)

lemma written_append_line [simp]: "written (append_line file line) = written file @ [line]"
  by (simp add: written_def append_line_def)

lemma check_keywords_cases:
  "snd (check_keywords kws e ts t s) = s \<or>
   (\<exists>kind. (kind = ''QUESTION'' \<or> kind = ''MENTION'') \<and> mentions_io e = IoOk \<and>
      snd (check_keywords kws e ts t s) =
        s\<lparr>fs := (fs s)\<lparr>mentions_file :=
           append_line (mentions_file (fs s)) (mention_record ts kind t)\<rparr>\<rparr>)"
proof (induction kws)
  case Nil
  then show ?case by simp
next
  case (Cons k kws)
  show ?case
  proof (cases "py_in (lower k) (lower t)")
    case False
    with Cons show ?thesis by simp
  next
    case True
    let ?q = "py_in ''?'' t \<or> list_ex (\<lambda>p. py_in p (lower t)) question_phrases"
    show ?thesis
    proof (cases "mentions_io e")
      case IoFails
      with True show ?thesis by (simp add: Let_def)
    next
      case IoOk
      show ?thesis
      proof (cases ?q)
        case q: True
        have "snd (check_keywords (k # kws) e ts t s) =
                s\<lparr>fs := (fs s)\<lparr>mentions_file :=
                  append_line (mentions_file (fs s)) (mention_record ts ''QUESTION'' t)\<rparr>\<rparr>"
          using True IoOk q unfolding mention_record_def by (simp add: Let_def)
        with IoOk show ?thesis by blast
      next
        case q: False
        have "snd (check_keywords (k # kws) e ts t s) =
                s\<lparr>fs := (fs s)\<lparr>mentions_file :=
                  append_line (mentions_file (fs s)) (mention_record ts ''MENTION'' t)\<rparr>\<rparr>"
          using True IoOk q unfolding mention_record_def by (simp add: Let_def)
        with IoOk show ?thesis by blast
      qed
    qed
  qed
qed

lemma write_transcript_fails:
  "transcript_io e = IoFails \<Longrightarrow> write_transcript e t s = (Some OSError, s)"
  by (simp add: write_transcript_def)

lemma write_transcript_cases:
  assumes "transcript_io e = IoOk"
  shows "\<exists>d. snd (write_transcript e t s) = s\<lparr>fs := d\<rparr> \<and>
     transcript_file d = append_line (transcript_file (fs s)) (transcript_line (clock e) t) \<and>
     metadata_file d = metadata_file (fs s) \<and> current_link d = current_link (fs s) \<and>
     (mentions_file d = mentions_file (fs s) \<or>
      (\<exists>kind. (kind = ''QUESTION'' \<or> kind = ''MENTION'') \<and> mentions_io e = IoOk \<and>
         mentions_file d = append_line (mentions_file (fs s)) (mention_record (clock e) kind t)))"
proof -
  let ?s1 = "s\<lparr>fs := (fs s)\<lparr>transcript_file :=
                 append_line (transcript_file (fs s)) (transcript_line (clock e) t)\<rparr>\<rparr>"
  have w: "snd (write_transcript e t s) = snd (check_keywords (mention_keywords s) e (clock e) t ?s1)"
    using assms by (simp add: write_transcript_def check_mentions_def transcript_line_def Let_def)
  from check_keywords_cases [of "mention_keywords s" e "clock e" t ?s1]
  show ?thesis
  proof
    assume "snd (check_keywords (mention_keywords s) e (clock e) t ?s1) = ?s1"
    with w show ?thesis by (intro exI [of _ "fs ?s1"]) simp
  next
    assume "\<exists>kind. (kind = ''QUESTION'' \<or> kind = ''MENTION'') \<and> mentions_io e = IoOk \<and>
      snd (check_keywords (mention_keywords s) e (clock e) t ?s1) =
        ?s1\<lparr>fs := (fs ?s1)\<lparr>mentions_file :=
           append_line (mentions_file (fs ?s1)) (mention_record (clock e) kind t)\<rparr>\<rparr>"
    then obtain kind where k: "kind = ''QUESTION'' \<or> kind = ''MENTION''" "mentions_io e = IoOk"
      "snd (check_keywords (mention_keywords s) e (clock e) t ?s1) =
        ?s1\<lparr>fs := (fs ?s1)\<lparr>mentions_file :=
           append_line (mentions_file (fs ?s1)) (mention_record (clock e) kind t)\<rparr>\<rparr>"
      by blast
    show ?thesis
      using w k
      by (intro exI [of _ "(fs ?s1)\<lparr>mentions_file :=
           append_line (mentions_file (fs ?s1)) (mention_record (clock e) kind t)\<rparr>"]) auto
  qed
qed


lemma reconnect_fs [simp]: "fs (reconnect outcome s) = fs s"
  by (cases outcome) (simp_all add: reconnect_def connect_def Let_def)

lemma reconnect_ws: "ws s \<noteq> None \<Longrightarrow> ws (reconnect outcome s) \<noteq> None"
  by (cases outcome) (simp_all add: reconnect_def connect_def Let_def)

text \<open>What one iteration does, by the kind of event.\<close>

lemma receive_step_no_socket: "ws s = None \<Longrightarrow> receive_step r e s = s"
  by (simp add: receive_step_def)

lemma receive_step_completed:
  "ws s \<noteq> None \<Longrightarrow> strip text \<noteq> [] \<Longrightarrow>
     receive_step (Event COMPLETED text) e s = snd (write_transcript e (strip text) s)"
  by (auto simp: receive_step_def Let_def)

lemma receive_step_blank:
  "strip text = [] \<Longrightarrow> receive_step (Event COMPLETED text) e s = s"
  by (auto simp: receive_step_def Let_def split: option.splits)

lemma receive_step_other:
  "event_type \<noteq> COMPLETED \<Longrightarrow> receive_step (Event event_type text) e s = s"
  by (auto simp: receive_step_def split: option.splits)

lemma receive_step_closed:
  "ws s \<noteq> None \<Longrightarrow> receive_step RecvClosed e s = reconnect (network e) s"
  by (auto simp: receive_step_def)

lemma receive_step_raises: "receive_step RecvRaises e s = s"
  by (auto simp: receive_step_def split: option.splits)

text \<open>The five ways an iteration can go.\<close>

lemma receive_step_cases:
  obtains (idle) "receive_step r e s = s" "ws s = None \<or> line_of (r, e) = []"
  | (closed) "ws s \<noteq> None" "r = RecvClosed" "receive_step r e s = reconnect (network e) s"
  | (failed) payload where "ws s \<noteq> None" "r = Event COMPLETED payload" "strip payload \<noteq> []"
      "transcript_io e = IoFails" "receive_step r e s = s"
  | (persisted) payload where "ws s \<noteq> None" "r = Event COMPLETED payload" "strip payload \<noteq> []"
      "transcript_io e = IoOk"
      "receive_step r e s = snd (write_transcript e (strip payload) s)"
proof (cases "ws s = None")
  case True
  then show ?thesis using idle by (simp add: receive_step_no_socket)
next
  case sock: False
  show ?thesis
  proof (cases r)
    case (Event event_type payload)
    show ?thesis
    proof (cases "event_type = COMPLETED \<and> strip payload \<noteq> []")
      case False
      then have "receive_step r e s = s"
        using Event receive_step_blank receive_step_other by metis
      moreover have "line_of (r, e) = []"
        using False Event by (auto simp: line_of_def)
      ultimately show ?thesis using idle by blast
    next
      case True
      then have step: "receive_step r e s = snd (write_transcript e (strip payload) s)"
        using Event sock by (simp add: receive_step_completed)
      show ?thesis
      proof (cases "transcript_io e")
        case IoOk
        with True Event sock step show ?thesis using persisted by blast
      next
        case IoFails
        then have "receive_step r e s = s"
          using step by (simp add: write_transcript_fails)
        with True Event sock IoFails show ?thesis using failed by blast
      qed
    qed
  next
    case RecvClosed
    with sock show ?thesis using closed by (simp add: receive_step_closed)
  next
    case RecvRaises
    then have "line_of (r, e) = []" by (simp add: line_of_def)
    with RecvRaises show ?thesis using idle by (simp add: receive_step_raises)
  qed
qed

lemma receive_step_ws: "ws s \<noteq> None \<Longrightarrow> ws (receive_step r e s) \<noteq> None"
proof (cases rule: receive_step_cases [where r = r and e = e and s = s])
  case (persisted payload)
  assume "ws s \<noteq> None"
  from write_transcript_cases [OF persisted(4), of "strip payload" s]
  obtain d where "snd (write_transcript e (strip payload) s) = s\<lparr>fs := d\<rparr>" by blast
  with persisted \<open>ws s \<noteq> None\<close> show ?thesis by simp
qed (simp_all add: reconnect_ws)

lemma receive_step_running: "running (receive_step r e s) = running s"
proof (cases rule: receive_step_cases [where r = r and e = e and s = s])
  case (persisted payload)
  from write_transcript_cases [OF persisted(4), of "strip payload" s]
  obtain d where "snd (write_transcript e (strip payload) s) = s\<lparr>fs := d\<rparr>" by blast
  with persisted show ?thesis by simp
qed simp_all

lemma receive_step_transcript:
  "written (transcript_file (fs (receive_step r e s))) =
     written (transcript_file (fs s)) @ (if ws s = None then [] else line_of (r, e))"
proof (cases rule: receive_step_cases [where r = r and e = e and s = s])
  case idle
  then show ?thesis by auto
next
  case closed
  then show ?thesis by (simp add: line_of_def)
next
  case (failed payload)
  then show ?thesis by (simp add: line_of_def)
next
  case (persisted payload)
  from write_transcript_cases [OF persisted(4), of "strip payload" s]
  obtain d where "snd (write_transcript e (strip payload) s) = s\<lparr>fs := d\<rparr>"
    "transcript_file d =
       append_line (transcript_file (fs s)) (transcript_line (clock e) (strip payload))"
    by blast
  with persisted show ?thesis by (simp add: line_of_def)
qed

lemma receive_transcriptions_idle:
  "\<not> running s \<or> ws s = None \<Longrightarrow> receive_transcriptions its s = s"
  by (induction its arbitrary: s) (auto simp: receive_step_no_socket)

lemma receive_transcriptions_transcript:
  "running s \<Longrightarrow> ws s \<noteq> None \<Longrightarrow>
     written (transcript_file (fs (receive_transcriptions its s))) =
       written (transcript_file (fs s)) @ concat (map line_of its)"
proof (induction its arbitrary: s)
  case Nil
  then show ?case by simp
next
  case (Cons it its)
  obtain r e where it: "it = (r, e)" by (cases it)
  have "running (receive_step r e s)" "ws (receive_step r e s) \<noteq> None"
    using Cons.prems by (simp_all add: receive_step_running receive_step_ws)
  from Cons.IH [OF this] show ?case
    using Cons.prems it by (simp add: receive_step_transcript)
qed

text \<open>\<open>strip\<close> leaves nothing exactly of a text that is all whitespace.\<close>

lemma strip_empty: "strip t = [] \<longleftrightarrow> (\<forall>c\<in>set t. isspace c)"
proof
  assume "strip t = []"
  then have "dropWhile isspace (rev (dropWhile isspace t)) = []"
    by (simp add: strip_def)
  then have "\<forall>c\<in>set (dropWhile isspace t). isspace c"
    by (simp add: dropWhile_eq_Nil_conv)
  then have "dropWhile isspace t = []"
    by (metis hd_dropWhile list.set_sel(1))
  then show "\<forall>c\<in>set t. isspace c"
    by (simp add: dropWhile_eq_Nil_conv)
next
  assume "\<forall>c\<in>set t. isspace c"
  then show "strip t = []"
    by (auto simp: strip_def dest: set_dropWhileD)
qed

lemma line_of_member:
  "line \<in> set (line_of (r, e)) \<Longrightarrow>
     \<exists>payload. r = Event COMPLETED payload \<and> strip payload \<noteq> [] \<and> transcript_io e = IoOk \<and>
       line = transcript_line (clock e) (strip payload)"
  by (cases r) (auto simp: line_of_def split: if_splits)

lemma receive_step_mentions:
  "\<exists>added. written (mentions_file (fs (receive_step r e s))) = written (mentions_file (fs s)) @ added \<and>
     length added \<le> 1 \<and>
     (\<forall>m\<in>set added. \<exists>payload kind. r = Event COMPLETED payload \<and> ws s \<noteq> None \<and>
        strip payload \<noteq> [] \<and> transcript_io e = IoOk \<and> mentions_io e = IoOk \<and>
        (kind = ''QUESTION'' \<or> kind = ''MENTION'') \<and>
        m = mention_record (clock e) kind (strip payload))"
proof (cases rule: receive_step_cases [where r = r and e = e and s = s])
  case (persisted payload)
  from write_transcript_cases [OF persisted(4), of "strip payload" s]
  obtain d where d: "snd (write_transcript e (strip payload) s) = s\<lparr>fs := d\<rparr>"
    "mentions_file d = mentions_file (fs s) \<or>
      (\<exists>kind. (kind = ''QUESTION'' \<or> kind = ''MENTION'') \<and> mentions_io e = IoOk \<and>
         mentions_file d = append_line (mentions_file (fs s))
           (mention_record (clock e) kind (strip payload)))"
    by blast
  from d(2) show ?thesis
  proof
    assume "mentions_file d = mentions_file (fs s)"
    with d(1) persisted show ?thesis by simp
  next
    assume "\<exists>kind. (kind = ''QUESTION'' \<or> kind = ''MENTION'') \<and> mentions_io e = IoOk \<and>
         mentions_file d = append_line (mentions_file (fs s))
           (mention_record (clock e) kind (strip payload))"
    then obtain kind where k: "kind = ''QUESTION'' \<or> kind = ''MENTION''" "mentions_io e = IoOk"
      "mentions_file d = append_line (mentions_file (fs s))
           (mention_record (clock e) kind (strip payload))"
      by blast
    show ?thesis
      using d(1) persisted k
      by (intro exI [of _ "[mention_record (clock e) kind (strip payload)]"]) auto
  qed
qed simp_all

lemma receive_transcriptions_mentions:
  "\<exists>added. written (mentions_file (fs (receive_transcriptions its s)))
       = written (mentions_file (fs s)) @ added \<and>
     (\<forall>m\<in>set added. \<exists>payload e kind. (Event COMPLETED payload, e) \<in> set its \<and>
        (kind = ''QUESTION'' \<or> kind = ''MENTION'') \<and>
        m = mention_record (clock e) kind (strip payload) \<and>
        transcript_line (clock e) (strip payload)
          \<in> set (written (transcript_file (fs (receive_transcriptions its s)))))"
proof (induction its arbitrary: s)
  case Nil
  then show ?case by simp
next
  case (Cons it its)
  obtain r e where it: "it = (r, e)" by (cases it)
  show ?case
  proof (cases "running s \<and> ws s \<noteq> None")
    case False
    then have "receive_transcriptions (it # its) s = s"
      by (intro receive_transcriptions_idle) auto
    then show ?thesis by simp
  next
    case True
    let ?s1 = "receive_step r e s"
    let ?s' = "receive_transcriptions its ?s1"
    have run: "receive_transcriptions (it # its) s = ?s'"
      using True it by simp
    have live: "running ?s1" "ws ?s1 \<noteq> None"
      using True by (simp_all add: receive_step_running receive_step_ws)
    have transcript: "written (transcript_file (fs ?s')) =
        written (transcript_file (fs s)) @ line_of (r, e) @ concat (map line_of its)"
      using True by (auto simp: receive_transcriptions_transcript [OF live] receive_step_transcript)
    from receive_step_mentions [of r e s] obtain now where now:
      "written (mentions_file (fs ?s1)) = written (mentions_file (fs s)) @ now"
      "\<forall>m\<in>set now. \<exists>payload kind. r = Event COMPLETED payload \<and> ws s \<noteq> None \<and>
        strip payload \<noteq> [] \<and> transcript_io e = IoOk \<and> mentions_io e = IoOk \<and>
        (kind = ''QUESTION'' \<or> kind = ''MENTION'') \<and>
        m = mention_record (clock e) kind (strip payload)"
      by blast
    from Cons.IH [of ?s1] obtain later where later:
      "written (mentions_file (fs ?s')) = written (mentions_file (fs ?s1)) @ later"
      "\<forall>m\<in>set later. \<exists>payload e kind. (Event COMPLETED payload, e) \<in> set its \<and>
        (kind = ''QUESTION'' \<or> kind = ''MENTION'') \<and>
        m = mention_record (clock e) kind (strip payload) \<and>
        transcript_line (clock e) (strip payload) \<in> set (written (transcript_file (fs ?s')))"
      by blast
    have "written (mentions_file (fs ?s')) = written (mentions_file (fs s)) @ (now @ later)"
      using now(1) later(1) by simp
    moreover have "\<forall>m\<in>set (now @ later). \<exists>payload e kind.
        (Event COMPLETED payload, e) \<in> set (it # its) \<and>
        (kind = ''QUESTION'' \<or> kind = ''MENTION'') \<and>
        m = mention_record (clock e) kind (strip payload) \<and>
        transcript_line (clock e) (strip payload) \<in> set (written (transcript_file (fs ?s')))"
    proof
      fix m assume "m \<in> set (now @ later)"
      then consider "m \<in> set now" | "m \<in> set later" by auto
      then show "\<exists>payload e kind.
        (Event COMPLETED payload, e) \<in> set (it # its) \<and>
        (kind = ''QUESTION'' \<or> kind = ''MENTION'') \<and>
        m = mention_record (clock e) kind (strip payload) \<and>
        transcript_line (clock e) (strip payload) \<in> set (written (transcript_file (fs ?s')))"
      proof cases
        case 1
        with now(2) obtain payload kind where p: "r = Event COMPLETED payload"
          "strip payload \<noteq> []" "transcript_io e = IoOk"
          "kind = ''QUESTION'' \<or> kind = ''MENTION''"
          "m = mention_record (clock e) kind (strip payload)"
          by blast
        then have "line_of (r, e) = [transcript_line (clock e) (strip payload)]"
          by (simp add: line_of_def)
        then have "transcript_line (clock e) (strip payload)
            \<in> set (written (transcript_file (fs ?s')))"
          using transcript by simp
        with p it show ?thesis by auto
      next
        case 2
        with later(2) show ?thesis by (metis list.set_intros(2))
      qed
    qed
    ultimately show ?thesis unfolding run by blast
  qed
qed

section \<open>Mention detection\<close>

text \<open>
  The loop over the keywords, in closed form: one line for the first keyword found, of
  the kind the transcript alone decides.
\<close>

lemma check_keywords_result:
  "mentions_io e = IoOk \<Longrightarrow>
   check_keywords kws e ts t s =
     (None,
      if \<exists>k\<in>set kws. sublist (lower k) (lower t) then
        s\<lparr>fs := (fs s)\<lparr>mentions_file := append_line (mentions_file (fs s))
          (if sublist ''?'' t \<or> (\<exists>p\<in>set question_phrases. sublist p (lower t))
           then mention_record ts ''QUESTION'' t
           else mention_record ts ''MENTION'' t)\<rparr>\<rparr>
      else s)"
  by (induction kws) (auto simp: py_in_sublist Let_def list_ex_iff mention_record_def)

text \<open>The definitions a concrete run unfolds.\<close>

lemmas evaluate =
  check_mentions_def calm_def streaming_def opened_def fresh_def init_def
  setup_meeting_directory_def update_current_def connect_def lower_def lower_char_def
  question_phrases_def append_line_def MENTION_KEYWORDS_def one_keyword_def
  mention_record_def transcript_line_def receive_step_def write_transcript_def
  COMPLETED_def strip_def isspace_def reconnect_def initial_metadata_def

text \<open>
  C4 (as the code has it). When the mentions file can be appended to,
  \<open>_check_mentions\<close> writes nothing if no keyword, lowered, is a substring of the
  lowered transcript, and otherwise exactly one line, whichever and however many
  keywords match. The line is a \<open>QUESTION\<close> exactly when the transcript contains \<open>?\<close>
  or its lowered form contains one of the eight fixed phrases of \<open>question_phrases\<close>
  (among them \<open>hey claude\<close> and \<open>hey assistant\<close>, but no phrase built from the
  configured keywords), and a \<open>MENTION\<close> otherwise. The three examples of the
  specification come out as QUESTION, MENTION and no record.
\<close>

theorem check_mentions_classifies:
  assumes "mentions_io e = IoOk"
  shows "check_mentions e ts t s =
     (None,
      if \<exists>k\<in>set (mention_keywords s). sublist (lower k) (lower t) then
        s\<lparr>fs := (fs s)\<lparr>mentions_file := append_line (mentions_file (fs s))
          (if sublist ''?'' t \<or> (\<exists>p\<in>set question_phrases. sublist p (lower t))
           then ''['' @ ts @ ''] QUESTION: '' @ t @ [newline]
           else ''['' @ ts @ ''] MENTION: '' @ t @ [newline])\<rparr>\<rparr>
      else s) \<and>
    mentions_file (fs (snd (check_mentions calm ''10:00:00'' ''Hey Claude, can you summarize?''
        one_keyword)))
      = Some [''[10:00:00] QUESTION: Hey Claude, can you summarize?'' @ [newline]] \<and>
    mentions_file (fs (snd (check_mentions calm ''10:00:00'' ''claude is a nice name''
        one_keyword)))
      = Some [''[10:00:00] MENTION: claude is a nice name'' @ [newline]] \<and>
    mentions_file (fs (snd (check_mentions calm ''10:00:00'' ''no keywords here''
        one_keyword)))
      = Some []"
proof -
  have general: "check_mentions e ts t s =
     (None,
      if \<exists>k\<in>set (mention_keywords s). sublist (lower k) (lower t) then
        s\<lparr>fs := (fs s)\<lparr>mentions_file := append_line (mentions_file (fs s))
          (if sublist ''?'' t \<or> (\<exists>p\<in>set question_phrases. sublist p (lower t))
           then ''['' @ ts @ ''] QUESTION: '' @ t @ [newline]
           else ''['' @ ts @ ''] MENTION: '' @ t @ [newline])\<rparr>\<rparr>
      else s)"
    using check_keywords_result [OF assms, of "mention_keywords s" ts t s]
    by (simp add: check_mentions_def mention_record_def)
  have question: "mentions_file (fs (snd (check_mentions calm ''10:00:00''
        ''Hey Claude, can you summarize?'' one_keyword)))
      = Some [''[10:00:00] QUESTION: Hey Claude, can you summarize?'' @ [newline]]"
    by (simp add: evaluate)
  have mention: "mentions_file (fs (snd (check_mentions calm ''10:00:00''
        ''claude is a nice name'' one_keyword)))
      = Some [''[10:00:00] MENTION: claude is a nice name'' @ [newline]]"
    by (simp add: evaluate)
  have neither: "mentions_file (fs (snd (check_mentions calm ''10:00:00''
        ''no keywords here'' one_keyword)))
      = Some []"
    by (simp add: evaluate)
  show ?thesis
    by (rule conjI [OF general conjI [OF question conjI [OF mention neither]]])
qed

theorem check_mentions_classifies_witness:
  "mentions_io calm = IoOk \<and>
   check_mentions calm ''10:00:00'' ''Could you ask the assistant'' streaming =
     (None, streaming\<lparr>fs := (fs streaming)\<lparr>mentions_file :=
        Some [''[10:00:00] QUESTION: Could you ask the assistant'' @ [newline]]\<rparr>\<rparr>)"
proof -
  let ?t = "''Could you ask the assistant''"
  have ok: "mentions_io calm = IoOk"
    by (simp add: calm_def)
  have "py_in (lower ''assistant'') (lower ?t)"
    by (simp add: lower_def lower_char_def)
  then have "sublist (lower ''assistant'') (lower ?t)"
    by (simp only: py_in_sublist)
  moreover have "mention_keywords streaming = [''claude'', ''assistant'', ''ai'']"
    by (simp add: streaming_def opened_def fresh_def init_def setup_meeting_directory_def
        update_current_def connect_def MENTION_KEYWORDS_def)
  ultimately have named: "\<exists>k\<in>set (mention_keywords streaming). sublist (lower k) (lower ?t)"
    by (simp only: list.set bex_simps insert_iff) blast
  have "py_in ''could you'' (lower ?t)"
    by (simp add: lower_def lower_char_def)
  then have "sublist ''could you'' (lower ?t)"
    by (simp only: py_in_sublist)
  moreover have "''could you'' \<in> set question_phrases"
    by (simp add: question_phrases_def)
  ultimately have asked: "sublist ''?'' ?t \<or> (\<exists>p\<in>set question_phrases. sublist p (lower ?t))"
    by blast
  have empty: "mentions_file (fs streaming) = Some []"
    by (simp add: streaming_def opened_def fresh_def init_def setup_meeting_directory_def
        update_current_def connect_def)
  from check_mentions_classifies [OF ok, of "''10:00:00''" ?t streaming]
  have "check_mentions calm ''10:00:00'' ?t streaming =
     (None, streaming\<lparr>fs := (fs streaming)\<lparr>mentions_file :=
        append_line (mentions_file (fs streaming))
          (''['' @ ''10:00:00'' @ ''] QUESTION: '' @ ?t @ [newline])\<rparr>\<rparr>)"
    by (simp only: named asked if_True)
  then show ?thesis
    using ok by (simp add: empty append_line_def)
qed

text \<open>
  The claim as stated fails for \<open>hey <keyword>\<close>: \<open>ai\<close> is a built-in keyword and
  the transcript says \<open>Hey AI\<close>, yet the record is a MENTION.
\<close>

theorem hey_keyword_counterexample:
  "''ai'' \<in> set (mention_keywords streaming) \<and>
   py_in (''hey '' @ ''ai'') (lower ''Hey AI tell me more'') \<and>
   check_mentions calm ''10:00:00'' ''Hey AI tell me more'' streaming =
     (None, streaming\<lparr>fs := (fs streaming)\<lparr>mentions_file :=
        Some [''[10:00:00] MENTION: Hey AI tell me more'' @ [newline]]\<rparr>\<rparr>)"
  by (simp add: evaluate)

section \<open>The transcript follows the events\<close>

lemma receive_step_transcript_exists:
  "transcript_file (fs s) \<noteq> None \<Longrightarrow> transcript_file (fs (receive_step r e s)) \<noteq> None"
proof (cases rule: receive_step_cases [where r = r and e = e and s = s])
  case (persisted payload)
  from write_transcript_cases [OF persisted(4), of "strip payload" s]
  show ?thesis using persisted by (auto simp: append_line_def)
qed simp_all

lemma receive_transcriptions_transcript_exists:
  "transcript_file (fs s) \<noteq> None \<Longrightarrow>
     transcript_file (fs (receive_transcriptions its s)) \<noteq> None"
proof (induction its arbitrary: s)
  case Nil
  then show ?case by simp
next
  case (Cons it its)
  obtain r e where it: "it = (r, e)" by (cases it)
  have "transcript_file (fs (receive_step r e s)) \<noteq> None"
    using Cons.prems by (rule receive_step_transcript_exists)
  then have "transcript_file (fs (receive_transcriptions its (receive_step r e s))) \<noteq> None"
    by (rule Cons.IH)
  with Cons.prems show ?case
    unfolding it by (cases "running s") simp_all
qed

lemma line_of_unfolded:
  "(\<lambda>(r, e).
      case r of
        Event event_type payload \<Rightarrow>
          if event_type = COMPLETED \<and> strip payload \<noteq> [] \<and> transcript_io e = IoOk
          then [''['' @ clock e @ ''] '' @ strip payload @ [newline]] else []
      | _ \<Rightarrow> []) = line_of"
  by (auto simp: fun_eq_iff line_of_def transcript_line_def split: recv_outcome.splits)

text \<open>
  C3 (as the code has it). While the client runs with a socket, on a transcript file
  that exists, the receiving loop appends exactly one line for each
  \<open>transcription.completed\<close> event whose transcript is not blank and whose append goes
  through, nothing for any other event, and the lines stand in the order of the
  events; a closed connection and the reconnect that follows neither lose nor repeat a
  line. For \<open>[completed("hi"), closed, reconnect, completed("there")]\<close> the file
  holds the line for \<open>hi\<close>, then the line for \<open>there\<close>.
\<close>

theorem transcript_follows_events:
  assumes "running s" and "ws s \<noteq> None" and "transcript_file (fs s) = Some before"
  shows "transcript_file (fs (receive_transcriptions its s)) =
           Some (before @ concat (map (\<lambda>(r, e).
             case r of
               Event event_type payload \<Rightarrow>
                 if event_type = COMPLETED \<and> strip payload \<noteq> [] \<and> transcript_io e = IoOk
                 then [''['' @ clock e @ ''] '' @ strip payload @ [newline]] else []
             | _ \<Rightarrow> []) its))"
proof -
  let ?s' = "receive_transcriptions its s"
  have "written (transcript_file (fs ?s')) = before @ concat (map line_of its)"
    using receive_transcriptions_transcript [OF assms(1,2), of its] assms(3)
    by (simp add: written_def)
  moreover have "transcript_file (fs ?s') \<noteq> None"
    using assms(3) by (intro receive_transcriptions_transcript_exists) simp
  ultimately show ?thesis
    unfolding line_of_unfolded by (auto simp: written_def)
qed

theorem transcript_follows_events_witness:
  "running streaming \<and> ws streaming \<noteq> None \<and> transcript_file (fs streaming) = Some [] \<and>
   transcript_file (fs (receive_transcriptions
       [(Event COMPLETED ''hi'', calm), (RecvClosed, calm),
        (Event COMPLETED ''there'', calm\<lparr>clock := ''10:00:07''\<rparr>)] streaming))
     = Some [''[10:00:00] hi'' @ [newline], ''[10:00:07] there'' @ [newline]]"
proof -
  have start: "running streaming" "ws streaming \<noteq> None" "transcript_file (fs streaming) = Some []"
    by (simp_all add: streaming_def opened_def fresh_def init_def setup_meeting_directory_def
        update_current_def connect_def)
  have hi: "strip ''hi'' = ''hi''" and there: "strip ''there'' = ''there''"
    by (simp_all add: strip_def isspace_def)
  from transcript_follows_events [OF start, of
      "[(Event COMPLETED ''hi'', calm), (RecvClosed, calm),
        (Event COMPLETED ''there'', calm\<lparr>clock := ''10:00:07''\<rparr>)]"]
  show ?thesis
    using start by (simp add: hi there calm_def)
qed

text \<open>
  The claim as stated fails: of two completed events, one blank, only one line is
  written.
\<close>

theorem blank_event_counterexample:
  "transcript_file (fs (receive_transcriptions
       [(Event COMPLETED ''hi'', calm), (Event COMPLETED ''   '', calm)] streaming))
     = Some [''[10:00:00] hi'' @ [newline]]"
  by (simp add: evaluate)

section \<open>Persistence failures\<close>

text \<open>
  C5 (as the code has it). When the append of a transcript line or of a mention line
  raises, the receiving loop swallows the exception and goes on with the next
  iteration: the client is still running on the same socket, the metadata is not
  touched (no close is attempted), nothing is written to the mentions file, and the
  transcript holds the line only if its own append went through. The failed write is
  not made again: the state keeps no trace of it.
\<close>

theorem persistence_failure_swallowed:
  assumes "running s" and "ws s \<noteq> None" and "strip payload \<noteq> []"
    and "transcript_io e = IoFails \<or> mentions_io e = IoFails"
  shows "receive_transcriptions ((Event COMPLETED payload, e) # rest) s
           = receive_transcriptions rest (receive_step (Event COMPLETED payload) e s) \<and>
         running (receive_step (Event COMPLETED payload) e s) \<and>
         ws (receive_step (Event COMPLETED payload) e s) = ws s \<and>
         metadata_file (fs (receive_step (Event COMPLETED payload) e s)) = metadata_file (fs s) \<and>
         mentions_file (fs (receive_step (Event COMPLETED payload) e s)) = mentions_file (fs s) \<and>
         transcript_file (fs (receive_step (Event COMPLETED payload) e s))
           = (if transcript_io e = IoFails then transcript_file (fs s)
              else append_line (transcript_file (fs s))
                     (''['' @ clock e @ ''] '' @ strip payload @ [newline]))"
proof -
  let ?s1 = "receive_step (Event COMPLETED payload) e s"
  have loop: "receive_transcriptions ((Event COMPLETED payload, e) # rest) s
           = receive_transcriptions rest ?s1"
    using assms(1) by simp
  have step: "?s1 = snd (write_transcript e (strip payload) s)"
    using assms(2,3) by (rule receive_step_completed)
  show ?thesis
  proof (cases "transcript_io e")
    case IoFails
    then have "?s1 = s"
      using step by (simp add: write_transcript_fails)
    with loop assms(1) IoFails show ?thesis by simp
  next
    case IoOk
    with assms(4) have m: "mentions_io e = IoFails" by simp
    from write_transcript_cases [OF IoOk, of "strip payload" s] m
    obtain d where d: "snd (write_transcript e (strip payload) s) = s\<lparr>fs := d\<rparr>"
      "transcript_file d =
         append_line (transcript_file (fs s)) (transcript_line (clock e) (strip payload))"
      "metadata_file d = metadata_file (fs s)" "mentions_file d = mentions_file (fs s)"
      by auto
    show ?thesis
      using loop assms(1) IoOk d unfolding step by (simp add: transcript_line_def)
  qed
qed

theorem persistence_failure_swallowed_witness:
  "running streaming \<and> ws streaming \<noteq> None \<and> strip ''hi claude'' \<noteq> [] \<and>
   mentions_io mentions_full = IoFails \<and>
   running (receive_step (Event COMPLETED ''hi claude'') mentions_full streaming) \<and>
   mentions_file (fs (receive_step (Event COMPLETED ''hi claude'') mentions_full streaming))
     = Some [] \<and>
   transcript_file (fs (receive_step (Event COMPLETED ''hi claude'') mentions_full streaming))
     = Some [''[10:00:00] hi claude'' @ [newline]]"
proof -
  have start: "running streaming" "ws streaming \<noteq> None"
    "mentions_file (fs streaming) = Some []" "transcript_file (fs streaming) = Some []"
    by (simp_all add: streaming_def opened_def fresh_def init_def setup_meeting_directory_def
        update_current_def connect_def)
  have hi: "strip ''hi claude'' = ''hi claude''"
    by (simp add: strip_def isspace_def)
  then have said: "strip ''hi claude'' \<noteq> []"
    by simp
  have full: "mentions_io mentions_full = IoFails" "transcript_io mentions_full = IoOk"
    "clock mentions_full = ''10:00:00''"
    by (simp_all add: mentions_full_def calm_def)
  from persistence_failure_swallowed [OF start(1,2) said disjI2, OF full(1), of "[]"]
  show ?thesis
    using start full hi by (simp add: append_line_def)
qed

text \<open>
  The claim as stated fails: after the append of \<open>hi\<close> has raised, the client is
  still running, its metadata is as setup wrote it, and the next line is persisted.
\<close>

theorem write_failure_counterexample:
  "running (receive_transcriptions
       [(Event COMPLETED ''hi'', disk_full), (Event COMPLETED ''there'', calm)] streaming) \<and>
   transcript_file (fs (receive_transcriptions
       [(Event COMPLETED ''hi'', disk_full), (Event COMPLETED ''there'', calm)] streaming))
     = Some [''[10:00:00] there'' @ [newline]] \<and>
   metadata_file (fs (receive_transcriptions
       [(Event COMPLETED ''hi'', disk_full), (Event COMPLETED ''there'', calm)] streaming))
     = metadata_file (fs opened)"
  by (simp add: evaluate disk_full_def)

text \<open>
  C6. \<open>_write_transcript\<close> whose append raises returns that exception with the client
  unchanged, so \<open>_check_mentions\<close> has written nothing. And over every run of the
  receiving loop, each record added to the mentions file comes from a completed event
  of the run and carries the timestamp and text of a line that is in the transcript
  file.
\<close>

theorem mentions_only_after_transcript:
  "(transcript_io e = IoFails \<longrightarrow> write_transcript e t s = (Some OSError, s)) \<and>
   (\<exists>added. written (mentions_file (fs (receive_transcriptions its s)))
        = written (mentions_file (fs s)) @ added \<and>
      (\<forall>m\<in>set added. \<exists>payload w kind. (Event COMPLETED payload, w) \<in> set its \<and>
         (kind = ''QUESTION'' \<or> kind = ''MENTION'') \<and>
         m = ''['' @ clock w @ ''] '' @ kind @ '': '' @ strip payload @ [newline] \<and>
         ''['' @ clock w @ ''] '' @ strip payload @ [newline]
           \<in> set (written (transcript_file (fs (receive_transcriptions its s))))))"
  using receive_transcriptions_mentions [of its s]
  by (simp add: write_transcript_fails mention_record_def transcript_line_def)

theorem mentions_only_after_transcript_witness:
  "transcript_io disk_full = IoFails \<and>
   write_transcript disk_full ''hi claude'' streaming = (Some OSError, streaming) \<and>
   written (mentions_file (fs (receive_transcriptions
       [(Event COMPLETED ''hi claude'', disk_full), (Event COMPLETED ''claude?'', calm)] streaming)))
     = [''[10:00:00] QUESTION: claude?'' @ [newline]] \<and>
   written (transcript_file (fs (receive_transcriptions
       [(Event COMPLETED ''hi claude'', disk_full), (Event COMPLETED ''claude?'', calm)] streaming)))
     = [''[10:00:00] claude?'' @ [newline]]"
proof -
  have full: "transcript_io disk_full = IoFails"
    by (simp add: disk_full_def)
  have run: "receive_transcriptions
       [(Event COMPLETED ''hi claude'', disk_full), (Event COMPLETED ''claude?'', calm)] streaming
     = streaming\<lparr>fs := (fs streaming)\<lparr>
         transcript_file := Some [''[10:00:00] claude?'' @ [newline]],
         mentions_file := Some [''[10:00:00] QUESTION: claude?'' @ [newline]]\<rparr>\<rparr>"
    by (simp add: evaluate disk_full_def)
  from mentions_only_after_transcript [of disk_full "''hi claude''" streaming
      "[(Event COMPLETED ''hi claude'', disk_full), (Event COMPLETED ''claude?'', calm)]"]
  show ?thesis
    using full unfolding run by (simp add: written_def)
qed

section \<open>Blank transcripts\<close>

text \<open>
  C9. A completed event whose transcript is empty or all whitespace leaves the client
  exactly as it was: no transcript line, no mention record. And every line a run of
  the receiving loop adds to the transcript comes from a completed event whose
  transcript has a character that is not whitespace, and carries its stripped,
  non-empty text.
\<close>

theorem blank_transcript_discarded:
  "((\<forall>c\<in>set payload. isspace c) \<longrightarrow> receive_step (Event COMPLETED payload) e s = s) \<and>
   (\<exists>added. written (transcript_file (fs (receive_transcriptions its s)))
        = written (transcript_file (fs s)) @ added \<and>
      (\<forall>line\<in>set added. \<exists>said w. (Event COMPLETED said, w) \<in> set its \<and>
         (\<exists>c\<in>set said. \<not> isspace c) \<and> strip said \<noteq> [] \<and>
         line = ''['' @ clock w @ ''] '' @ strip said @ [newline]))"
proof -
  have blank: "(\<forall>c\<in>set payload. isspace c) \<longrightarrow> receive_step (Event COMPLETED payload) e s = s"
    by (simp add: receive_step_blank strip_empty)
  let ?added = "if running s \<and> ws s \<noteq> None then concat (map line_of its) else []"
  have "written (transcript_file (fs (receive_transcriptions its s)))
        = written (transcript_file (fs s)) @ ?added"
    using receive_transcriptions_transcript [of s its] receive_transcriptions_idle [of s its]
    by auto
  moreover have "\<forall>line\<in>set ?added. \<exists>said w. (Event COMPLETED said, w) \<in> set its \<and>
         (\<exists>c\<in>set said. \<not> isspace c) \<and> strip said \<noteq> [] \<and>
         line = ''['' @ clock w @ ''] '' @ strip said @ [newline]"
  proof
    fix line assume "line \<in> set ?added"
    then obtain r w where rw: "(r, w) \<in> set its" "line \<in> set (line_of (r, w))"
      by (auto split: if_splits)
    from line_of_member [OF rw(2)] obtain said where
      "r = Event COMPLETED said" "strip said \<noteq> []" "line = transcript_line (clock w) (strip said)"
      by blast
    with rw(1) show "\<exists>said w. (Event COMPLETED said, w) \<in> set its \<and>
         (\<exists>c\<in>set said. \<not> isspace c) \<and> strip said \<noteq> [] \<and>
         line = ''['' @ clock w @ ''] '' @ strip said @ [newline]"
      using strip_empty [of said] by (auto simp: transcript_line_def)
  qed
  ultimately show ?thesis using blank by blast
qed

theorem blank_transcript_discarded_witness:
  "isspace CHR '' '' \<and> isspace (CHR 0x09) \<and> isspace newline \<and>
   receive_step (Event COMPLETED ('' '' @ [CHR 0x09, newline])) calm streaming = streaming"
proof -
  have "\<forall>c\<in>set ('' '' @ [CHR 0x09, newline]). isspace c"
    by (simp add: isspace_def newline_def)
  with blank_transcript_discarded [of "'' '' @ [CHR 0x09, newline]" calm streaming "[]"]
  show ?thesis by simp
qed

section \<open>The forwarding path\<close>

lemma audio_append [simp]: "audio (xs @ ys) = audio xs @ audio ys"
  by (simp add: audio_def)

lemma audio_reconnect [simp]: "audio (wire (reconnect net s)) = audio (wire s)"
  by (cases net) (simp_all add: reconnect_def connect_def Let_def audio_def)

lemma send_audio_no_socket: "ws s = None \<Longrightarrow> send_audio its s = s"
  by (induction its s rule: send_audio.induct) (auto split: read_outcome.splits)

lemma send_audio_stopped: "\<not> running s \<Longrightarrow> send_audio its s = s"
  by (cases its) auto

lemma send_audio_wire:
  "running s \<Longrightarrow> ws s \<noteq> None \<Longrightarrow>
     audio (wire (send_audio its s)) =
       audio (wire s) @ concat (map sent_chunk (takeWhile goes_on its))"
proof (induction its arbitrary: s)
  case Nil
  then show ?case by simp
next
  case (Cons it its)
  obtain rd sd net where it: "it = (rd, sd, net)" by (cases it)
  from Cons.prems obtain w where w: "ws s = Some w" by auto
  show ?case
  proof (cases rd)
    case ReadRaises
    with it Cons.prems show ?thesis by (simp add: goes_on_def)
  next
    case (Read chunk)
    show ?thesis
    proof (cases "chunk = []")
      case True
      with it Read Cons.prems show ?thesis by (simp add: goes_on_def)
    next
      case False
      show ?thesis
      proof (cases sd)
        case Sent
        let ?s1 = "s\<lparr>wire := wire s @ [AudioAppend chunk]\<rparr>"
        have "running ?s1" "ws ?s1 \<noteq> None" using Cons.prems by simp_all
        from Cons.IH [OF this] show ?thesis
          using it Read False Sent Cons.prems w
          by (simp add: goes_on_def sent_chunk_def audio_def)
      next
        case SendClosed
        let ?s1 = "reconnect net s"
        have "running ?s1" "ws ?s1 \<noteq> None"
          using Cons.prems by (simp_all add: reconnect_ws)
        from Cons.IH [OF this] show ?thesis
          using it Read False SendClosed Cons.prems w
          by (simp add: goes_on_def sent_chunk_def)
      next
        case SendRaises
        with it Read False Cons.prems w show ?thesis by (simp add: goes_on_def)
      qed
    qed
  qed
qed

lemma sent_subseq_read:
  "subseq (concat (map sent_chunk (takeWhile goes_on its))) (concat (map read_chunk its))"
proof (induction its)
  case Nil
  then show ?case by simp
next
  case (Cons it its)
  have "subseq (sent_chunk it) (read_chunk it)"
    by (auto simp: sent_chunk_def read_chunk_def
        split: prod.splits read_outcome.splits send_outcome.splits)
  with Cons show ?case
    by (auto intro: list_emb_append_mono)
qed

text \<open>
  C7. While the client runs with a socket, the audio on the wire grows by exactly the
  chunks of the iterations whose send went through, in the order they were read, up
  to the first iteration that ends the loop (an empty read, or an exception other than
  a closed connection): each chunk read is sent at most once, a chunk whose send met a
  closed connection is never sent, and nothing is kept for later. Without a socket the
  loop changes nothing, so every chunk read then is dropped. In every case the audio
  added is a subsequence of the chunks read, and a zero-length read ends the loop at
  once.
\<close>

theorem send_audio_forwards:
  "(running s \<and> ws s \<noteq> None \<longrightarrow>
      audio (wire (send_audio its s)) =
        audio (wire s) @ concat (map sent_chunk (takeWhile goes_on its))) \<and>
   (ws s = None \<longrightarrow> send_audio its s = s) \<and>
   (\<exists>added. audio (wire (send_audio its s)) = audio (wire s) @ added \<and>
      subseq added (concat (map read_chunk its))) \<and>
   send_audio ((Read [], sd, net) # its) s = s"
proof -
  have live: "running s \<and> ws s \<noteq> None \<longrightarrow>
      audio (wire (send_audio its s)) =
        audio (wire s) @ concat (map sent_chunk (takeWhile goes_on its))"
    by (simp add: send_audio_wire)
  have down: "ws s = None \<longrightarrow> send_audio its s = s"
    by (simp add: send_audio_no_socket)
  have "\<exists>added. audio (wire (send_audio its s)) = audio (wire s) @ added \<and>
      subseq added (concat (map read_chunk its))"
  proof (cases "running s \<and> ws s \<noteq> None")
    case True
    with live sent_subseq_read [of its] show ?thesis by blast
  next
    case False
    then have "send_audio its s = s"
      using send_audio_no_socket send_audio_stopped by blast
    then show ?thesis by simp
  qed
  moreover have "send_audio ((Read [], sd, net) # its) s = s"
    by simp
  ultimately show ?thesis using live down by blast
qed

theorem send_audio_forwards_witness:
  "running streaming \<and> ws streaming \<noteq> None \<and> audio (wire streaming) = [] \<and>
   audio (wire (send_audio
      [(Read ''one'', Sent, ConnectRaises),
       (Read ''two'', SendClosed, Established (WebSocket 1)),
       (Read ''three'', Sent, ConnectRaises),
       (Read [], Sent, ConnectRaises),
       (Read ''four'', Sent, ConnectRaises)] streaming))
     = [''one'', ''three'']"
proof -
  have start: "running streaming" "ws streaming \<noteq> None" "audio (wire streaming) = []"
    by (simp_all add: streaming_def opened_def fresh_def init_def setup_meeting_directory_def
        update_current_def connect_def audio_def)
  from send_audio_forwards [of streaming
      "[(Read ''one'', Sent, ConnectRaises),
       (Read ''two'', SendClosed, Established (WebSocket 1)),
       (Read ''three'', Sent, ConnectRaises),
       (Read [], Sent, ConnectRaises),
       (Read ''four'', Sent, ConnectRaises)]"]
  show ?thesis
    using start by (simp add: goes_on_def sent_chunk_def)
qed

section \<open>The backoff over the whole client\<close>

text \<open>Both loops keep the stored delay within its bounds.\<close>

lemma receive_step_backoff_ok: "backoff_ok s \<Longrightarrow> backoff_ok (receive_step r e s)"
proof (cases rule: receive_step_cases [where r = r and e = e and s = s])
  case (persisted payload)
  assume ok: "backoff_ok s"
  from write_transcript_cases [OF persisted(4), of "strip payload" s]
  obtain d where "snd (write_transcript e (strip payload) s) = s\<lparr>fs := d\<rparr>" by blast
  with persisted ok show ?thesis by (simp add: backoff_ok_def)
qed (simp_all add: reconnect_backoff_ok)

lemma receive_transcriptions_backoff_ok:
  "backoff_ok s \<Longrightarrow> backoff_ok (receive_transcriptions its s)"
  by (induction its arbitrary: s) (auto simp: receive_step_backoff_ok)

lemma send_audio_backoff_ok: "backoff_ok s \<Longrightarrow> backoff_ok (send_audio its s)"
proof (induction its arbitrary: s)
  case Nil
  then show ?case by simp
next
  case (Cons it its)
  obtain rd sd net where it: "it = (rd, sd, net)" by (cases it)
  have sent: "backoff_ok (s\<lparr>wire := wire s @ [AudioAppend chunk]\<rparr>)" for chunk
    using Cons.prems by (simp add: backoff_ok_def)
  have closed: "backoff_ok (reconnect net s)"
    using Cons.prems by (rule reconnect_backoff_ok)
  show ?case
    using Cons.prems Cons.IH [OF sent] Cons.IH [OF closed] Cons.IH [OF Cons.prems]
    unfolding it
    by (auto split: read_outcome.splits option.splits send_outcome.splits)
qed

text \<open>
  C1. From any state whose stored delay lies in 1..30 under the ceiling 30 (the state
  \<open>__init__\<close> builds is one), and for every sequence of reconnect attempts: the stored
  delay stays in 1..30; every delay slept is in 1..30; over attempts that all fail the
  delays slept are non-decreasing (and stay below the delay stored next); an attempt
  that connects leaves the stored delay at 1, so that the attempt after it sleeps 1,
  as does a successful \<open>connect\<close> called directly; and a failed attempt never lowers
  the stored delay and at most doubles it. The receiving and the forwarding loop, which
  reconnect on their own, keep the stored delay in 1..30 as well.
\<close>

theorem reconnect_backoff:
  assumes "1 \<le> reconnect_delay s" and "reconnect_delay s \<le> 30"
    and "max_reconnect_delay s = 30"
  shows "(1 \<le> reconnect_delay (reconnect_attempts outcomes s) \<and>
          reconnect_delay (reconnect_attempts outcomes s) \<le> 30) \<and>
         (\<exists>waited. slept (reconnect_attempts outcomes s) = slept s @ waited \<and>
            (\<forall>d\<in>set waited. 1 \<le> d \<and> d \<le> 30) \<and>
            ((\<forall>outcome\<in>set outcomes. \<not> established outcome) \<longrightarrow>
               sorted (waited @ [reconnect_delay (reconnect_attempts outcomes s)]))) \<and>
         (running s \<and> established outcome \<longrightarrow>
            reconnect_delay (reconnect_attempts (outcomes @ [outcome]) s) = 1 \<and>
            slept (reconnect_attempts (outcomes @ [outcome, next_outcome]) s) =
              slept (reconnect_attempts (outcomes @ [outcome]) s) @ [1]) \<and>
         (\<not> established outcome \<longrightarrow>
            reconnect_delay (reconnect_attempts outcomes s)
              \<le> reconnect_delay (reconnect_attempts (outcomes @ [outcome]) s) \<and>
            reconnect_delay (reconnect_attempts (outcomes @ [outcome]) s)
              \<le> 2 * reconnect_delay (reconnect_attempts outcomes s)) \<and>
         reconnect_delay (snd (connect (Established w) s)) = 1 \<and>
         (1 \<le> reconnect_delay (receive_transcriptions received s) \<and>
          reconnect_delay (receive_transcriptions received s) \<le> 30) \<and>
         (1 \<le> reconnect_delay (send_audio reads s) \<and>
          reconnect_delay (send_audio reads s) \<le> 30)"
proof -
  let ?s' = "reconnect_attempts outcomes s"
  have ok: "backoff_ok s"
    using assms by (simp add: backoff_ok_def)
  then have ok': "backoff_ok ?s'"
    by (rule attempts_backoff_ok)
  then have bounds: "1 \<le> reconnect_delay ?s' \<and> reconnect_delay ?s' \<le> 30"
    by (simp add: backoff_ok_def)
  from attempts_slept [OF ok, of outcomes] obtain waited where
    w: "slept ?s' = slept s @ waited" "\<forall>d\<in>set waited. 1 \<le> d \<and> d \<le> 30"
       "(\<forall>outcome\<in>set outcomes. \<not> established outcome) \<longrightarrow>
          sorted (reconnect_delay s # waited @ [reconnect_delay ?s'])"
    by blast
  have waits: "\<exists>waited. slept ?s' = slept s @ waited \<and>
                 (\<forall>d\<in>set waited. 1 \<le> d \<and> d \<le> 30) \<and>
                 ((\<forall>outcome\<in>set outcomes. \<not> established outcome) \<longrightarrow>
                    sorted (waited @ [reconnect_delay ?s']))"
    using w by (intro exI [of _ waited]) auto
  have reset: "running s \<and> established outcome \<longrightarrow>
                 reconnect_delay (reconnect_attempts (outcomes @ [outcome]) s) = 1 \<and>
                 slept (reconnect_attempts (outcomes @ [outcome, next_outcome]) s) =
                   slept (reconnect_attempts (outcomes @ [outcome]) s) @ [1]"
    by (simp add: attempts_append reconnect_established attempts_running reconnect_slept)
  have doubling: "\<not> established outcome \<longrightarrow>
                    reconnect_delay ?s' \<le> reconnect_delay (reconnect_attempts (outcomes @ [outcome]) s) \<and>
                    reconnect_delay (reconnect_attempts (outcomes @ [outcome]) s)
                      \<le> 2 * reconnect_delay ?s'"
    using reconnect_failed_delay [OF _ ok', of outcome] by (simp add: attempts_append)
  have first: "reconnect_delay (snd (connect (Established w) s)) = 1"
    by (simp add: connect_def)
  have receiving: "1 \<le> reconnect_delay (receive_transcriptions received s) \<and>
          reconnect_delay (receive_transcriptions received s) \<le> 30"
    using receive_transcriptions_backoff_ok [OF ok, of received] by (simp add: backoff_ok_def)
  have sending: "1 \<le> reconnect_delay (send_audio reads s) \<and>
          reconnect_delay (send_audio reads s) \<le> 30"
    using send_audio_backoff_ok [OF ok, of reads] by (simp add: backoff_ok_def)
  show ?thesis
    using bounds waits reset doubling first receiving sending by blast
qed

theorem reconnect_backoff_witness:
  "reconnect_delay fresh = 1 \<and> max_reconnect_delay fresh = 30 \<and>
   reconnect_delay (reconnect_attempts [ConnectRaises, ConnectRaises] fresh) = 4 \<and>
   reconnect_delay
     (reconnect_attempts ([ConnectRaises, ConnectRaises] @ [Established (WebSocket 1)]) fresh) = 1 \<and>
   slept (reconnect_attempts
            ([ConnectRaises, ConnectRaises] @ [Established (WebSocket 1), ConnectRaises]) fresh)
     = [1, 2, 4, 1]"
  using reconnect_backoff [of fresh "[ConnectRaises, ConnectRaises]"
      "Established (WebSocket 1)" ConnectRaises]
  by (simp add: fresh_def init_def reconnect_def connect_def)

end
